theory Spec2Isabelle
  imports Main "HOL-Library.Sublist" "HOL-Library.Char_ord" "HOL-Library.Product_Lexorder"
begin

section \<open>Text primitives\<close>

text \<open>
  A Python \<open>str\<close> is a sequence of code points. The pipeline is modelled on HOL's
  \<open>string\<close>, whose characters are the code points below 256. On these the
  regular-expression class \<^verbatim>\<open>\d\<close> (the decimal digits of the Unicode database) is
  exactly \<open>0\<close> to \<open>9\<close>. The scan of the listing page is written for any alphabet and
  any class of digits, so that what is proved of it holds of text with other digits
  too.
\<close>

definition is_digit :: "char \<Rightarrow> bool" where
  "is_digit c = (CHR ''0'' \<le> c \<and> c \<le> CHR ''9'')"

section \<open>Identifier extraction\<close>

text \<open>
  \<^verbatim>\<open>unique(seq)\<close> is a generator that remembers the elements it has yielded in the set
  \<open>seen\<close>; \<open>unique_from seen xs\<close> is the loop from a given \<open>seen\<close>, and \<open>unique\<close>
  starts it from the empty set.
\<close>

fun unique_from :: "'a set \<Rightarrow> 'a list \<Rightarrow> 'a list" where
  "unique_from seen [] = []"
| "unique_from seen (x # xs) =
     (if x \<notin> seen then x # unique_from (insert x seen) xs else unique_from seen xs)"

definition unique :: "'a list \<Rightarrow> 'a list" where
  "unique seq = unique_from {} seq"

text \<open>
  The pattern \<^verbatim>\<open>/events/(\d+)\<close> is a literal segment followed by a captured run of
  digits; \<open>digit\<close> is the class \<^verbatim>\<open>\d\<close> and \<open>seg\<close> the segment. One attempt of the
  pattern at the head of the text: the segment, then the longest non-empty run of
  digits. The result is the captured group and the text after the match.
\<close>

definition match_segment ::
  "('c \<Rightarrow> bool) \<Rightarrow> 'c list \<Rightarrow> 'c list \<Rightarrow> ('c list \<times> 'c list) option" where
  "match_segment digit seg s =
     (if prefix seg s then
        (let r = drop (length seg) s; g = takeWhile digit r in
         if g = [] then None else Some (g, dropWhile digit r))
      else None)"

lemma match_segment_shorter:
  assumes "match_segment digit seg s = Some (g, rest)"
  shows "length rest < length s"
proof -
  let ?r = "drop (length seg) s"
  from assms have g: "g = takeWhile digit ?r" and r: "rest = dropWhile digit ?r" and n: "g \<noteq> []"
    by (auto simp: match_segment_def Let_def split: if_splits)
  have "length g + length rest = length ?r"
    unfolding g r by (metis length_append takeWhile_dropWhile_id)
  with n have "length rest < length ?r"
    by (cases g) auto
  then show ?thesis by simp
qed

text \<open>
  \<^verbatim>\<open>re.finditer\<close>: the matches from left to right, without overlap. Where the pattern
  matches, the scan goes on behind the match; elsewhere it moves one character on.
\<close>

function finditer_segment :: "('c \<Rightarrow> bool) \<Rightarrow> 'c list \<Rightarrow> 'c list \<Rightarrow> 'c list list" where
  "finditer_segment digit seg [] = []"
| "finditer_segment digit seg (c # cs) =
     (case match_segment digit seg (c # cs) of
        Some (g, rest) \<Rightarrow> g # finditer_segment digit seg rest
      | None \<Rightarrow> finditer_segment digit seg cs)"
  by pat_completeness auto
termination
  by (relation "measure (\<lambda>(digit, seg, s). length s)") (auto dest: match_segment_shorter)

text \<open>The loop of \<^verbatim>\<open>extract_event_ids\<close>: the captured groups of the matches.\<close>

definition finditer_events :: "string \<Rightarrow> string list" where
  "finditer_events html = finditer_segment is_digit ''/events/'' html"

definition extract_event_ids :: "string \<Rightarrow> string list" where
  "extract_event_ids html = unique (finditer_events html)"

text \<open>
  The stable-unique filter in the specification's words: of the collected matches, the
  one at position \<open>i\<close> is kept exactly when it does not occur before position \<open>i\<close>.
\<close>

definition first_occurrences :: "'a list \<Rightarrow> 'a list" where
  "first_occurrences xs =
     map (\<lambda>i. xs ! i) (filter (\<lambda>i. xs ! i \<notin> set (take i xs)) [0..<length xs])"

text \<open>
  The matches in the specification's words, read off the text and not off the scan: the
  pattern stands at position \<open>p\<close> when the literal segment begins there and a digit
  follows it; the identifier of that match is the run of digits behind the segment.
  \<open>pattern_matches\<close> lists the identifiers of all these positions in document order.
\<close>

definition pattern_at :: "('c \<Rightarrow> bool) \<Rightarrow> 'c list \<Rightarrow> 'c list \<Rightarrow> nat \<Rightarrow> bool" where
  "pattern_at digit seg text p =
     (take (length seg) (drop p text) = seg
      \<and> p + length seg < length text \<and> digit (text ! (p + length seg)))"

definition pattern_matches :: "('c \<Rightarrow> bool) \<Rightarrow> 'c list \<Rightarrow> 'c list \<Rightarrow> 'c list list" where
  "pattern_matches digit seg text =
     map (\<lambda>p. takeWhile digit (drop (p + length seg) text))
       (filter (pattern_at digit seg text) [0..<length text])"

text \<open>The non-empty tails of a list, the longest first.\<close>

fun tails :: "'a list \<Rightarrow> 'a list list" where
  "tails [] = []"
| "tails (x # xs) = (x # xs) # tails xs"

text \<open>The call site in \<^verbatim>\<open>main\<close>: \<^verbatim>\<open>list(unique(event_ids))[:20]\<close>.\<close>

definition main_event_ids :: "string \<Rightarrow> string list" where
  "main_event_ids html = take 20 (unique (extract_event_ids html))"

section \<open>Dates and times\<close>

text \<open>
  A \<^verbatim>\<open>datetime\<close> of the standard library: the wall-clock fields and an optional
  \<^verbatim>\<open>tzinfo\<close> object. Such an object is represented by its identity (the comparison
  asks whether two datetimes carry the same object), by its name, if it has one, and by
  the offset from UTC in seconds that it reports for that datetime. The objects the
  date parser hands out are numbered; \<open>ZoneTz name off\<close> is the object pytz keeps for
  the zone \<open>name\<close> and its variant with the offset \<open>off\<close>. A datetime without a
  \<^verbatim>\<open>tzinfo\<close> is called naive, one with it aware.
\<close>

datatype tz_ident = ParsedTz int | ZoneTz string int

record tz_info =
  tz_id :: tz_ident
  tzname :: "string option"
  utcoffset :: int

record datetime =
  year :: int
  month :: int
  day :: int
  hour :: int
  minute :: int
  second :: int
  microsecond :: int
  tzinfo :: "tz_info option"

datatype py_error = TypeError | ValueError

definition is_leap :: "int \<Rightarrow> bool" where
  "is_leap y = (y mod 4 = 0 \<and> (y mod 100 \<noteq> 0 \<or> y mod 400 = 0))"

definition days_before_year :: "int \<Rightarrow> int" where
  "days_before_year y = (let p = y - 1 in p * 365 + p div 4 - p div 100 + p div 400)"

definition days_before_month :: "int \<Rightarrow> int \<Rightarrow> int" where
  "days_before_month y m =
     (if 1 \<le> m \<and> m \<le> 12
      then [0, 31, 59, 90, 120, 151, 181, 212, 243, 273, 304, 334] ! nat (m - 1)
      else 0)
     + (if m > 2 \<and> is_leap y then 1 else 0)"

definition toordinal :: "datetime \<Rightarrow> int" where
  "toordinal d = days_before_year (year d) + days_before_month (year d) (month d) + day d"

definition dt_fields :: "datetime \<Rightarrow> int \<times> int \<times> int \<times> int \<times> int \<times> int \<times> int" where
  "dt_fields d = (year d, month d, day d, hour d, minute d, second d, microsecond d)"

definition utc_micros :: "datetime \<Rightarrow> int \<Rightarrow> int" where
  "utc_micros d off =
     ((toordinal d * 86400 + hour d * 3600 + minute d * 60 + second d) - off) * 1000000
     + microsecond d"

text \<open>
  \<^verbatim>\<open>dt.utcoffset()\<close>: \<open>None\<close> on a naive datetime; on an aware one the offset its
  \<^verbatim>\<open>tzinfo\<close> reports, which must lie strictly between minus and plus 24 hours, or the
  call raises \<^verbatim>\<open>ValueError\<close>.
\<close>

definition dt_utcoffset :: "datetime \<Rightarrow> py_error + int option" where
  "dt_utcoffset d =
     (case tzinfo d of
        None \<Rightarrow> Inr None
      | Some t \<Rightarrow>
          (if - 86400 < utcoffset t \<and> utcoffset t < 86400 then Inr (Some (utcoffset t))
           else Inl ValueError))"

text \<open>Whether two datetimes carry the same \<^verbatim>\<open>tzinfo\<close> object; two naive ones do.\<close>

definition same_tzinfo :: "datetime \<Rightarrow> datetime \<Rightarrow> bool" where
  "same_tzinfo a b =
     (case (tzinfo a, tzinfo b) of
        (None, None) \<Rightarrow> True
      | (Some ta, Some tb) \<Rightarrow> tz_id ta = tz_id tb
      | (None, Some tb) \<Rightarrow> False
      | (Some ta, None) \<Rightarrow> False)"

text \<open>
  The comparison \<^verbatim>\<open>a >= b\<close> of two datetimes. With the same \<^verbatim>\<open>tzinfo\<close> object
  on both sides (or none on either) the fields are compared and no offset is asked for.
  Otherwise both offsets are asked for, that of \<open>a\<close> first, and either call may
  raise. With equal offsets the fields are compared; two aware values with different
  offsets are compared as instants; a naive and an aware value cannot be compared, and
  the comparison raises \<^verbatim>\<open>TypeError\<close>.
\<close>

definition dt_ge :: "datetime \<Rightarrow> datetime \<Rightarrow> py_error + bool" where
  "dt_ge a b =
     (if same_tzinfo a b then Inr (dt_fields b \<le> dt_fields a)
      else
        (case dt_utcoffset a of
           Inl err \<Rightarrow> Inl err
         | Inr oa \<Rightarrow>
             (case dt_utcoffset b of
                Inl err \<Rightarrow> Inl err
              | Inr ob \<Rightarrow>
                  (if oa = ob then Inr (dt_fields b \<le> dt_fields a)
                   else
                     (case (oa, ob) of
                        (Some x, Some y) \<Rightarrow> Inr (utc_micros b y \<le> utc_micros a x)
                      | (Some x, None) \<Rightarrow> Inl TypeError
                      | (None, Some y) \<Rightarrow> Inl TypeError
                      | (None, None) \<Rightarrow> Inl TypeError)))))"

section \<open>The timestamp pattern\<close>

text \<open>
  The pattern of the script scan,
  \<^verbatim>\<open>(\d{4}-\d{2}-\d{2}T\d{2}:\d{2}:\d{2}([+-]\d{2}:?\d{2}|Z)?)\<close>,
  is a sequence of single-character items followed by an optional group. \<open>match_items\<close>
  matches a sequence of items at the head of the text.
\<close>

datatype item = Digit | Lit char | OneOf string

fun match_item :: "item \<Rightarrow> char \<Rightarrow> bool" where
  "match_item Digit c = is_digit c"
| "match_item (Lit l) c = (c = l)"
| "match_item (OneOf cs) c = (c \<in> set cs)"

fun match_items :: "item list \<Rightarrow> string \<Rightarrow> bool" where
  "match_items [] s = True"
| "match_items (p # ps) [] = False"
| "match_items (p # ps) (c # cs) = (match_item p c \<and> match_items ps cs)"

definition iso_core :: "item list" where
  "iso_core =
     [Digit, Digit, Digit, Digit, Lit CHR ''-'', Digit, Digit, Lit CHR ''-'', Digit, Digit,
      Lit CHR ''T'', Digit, Digit, Lit CHR '':'', Digit, Digit, Lit CHR '':'', Digit, Digit]"

definition offset_colon :: "item list" where
  "offset_colon = [OneOf ''+-'', Digit, Digit, Lit CHR '':'', Digit, Digit]"

definition offset_plain :: "item list" where
  "offset_plain = [OneOf ''+-'', Digit, Digit, Digit, Digit]"

text \<open>
  The length of the optional group at the head of the text: the numeric offset, with its
  colon if there is one; else the letter \<open>Z\<close>; else the group is skipped.
\<close>

definition zone_length :: "string \<Rightarrow> nat" where
  "zone_length r =
     (if match_items offset_colon r then 6
      else if match_items offset_plain r then 5
      else if match_items [Lit CHR ''Z''] r then 1
      else 0)"

definition match_iso :: "string \<Rightarrow> (string \<times> string) option" where
  "match_iso s =
     (if match_items iso_core s then
        (let n = 19 + zone_length (drop 19 s) in Some (take n s, drop n s))
      else None)"

lemma match_items_length: "match_items ps s \<Longrightarrow> length ps \<le> length s"
  by (induction ps s rule: match_items.induct) auto

lemma match_iso_shorter:
  "match_iso s = Some (g, rest) \<Longrightarrow> length rest < length s"
proof -
  assume m: "match_iso s = Some (g, rest)"
  then have c: "match_items iso_core s"
    and r: "rest = drop (19 + zone_length (drop 19 s)) s"
    by (auto simp: match_iso_def Let_def split: if_splits)
  from c have "19 \<le> length s"
    using match_items_length [of iso_core s] by (simp add: iso_core_def)
  then show ?thesis by (simp add: r)
qed

function finditer_iso :: "string \<Rightarrow> string list" where
  "finditer_iso [] = []"
| "finditer_iso (c # cs) =
     (case match_iso (c # cs) of
        Some (g, rest) \<Rightarrow> g # finditer_iso rest
      | None \<Rightarrow> finditer_iso cs)"
  by pat_completeness auto
termination
  by (relation "measure length") (auto dest: match_iso_shorter)

section \<open>Lower case and substring test\<close>

text \<open>
  \<^verbatim>\<open>str.lower\<close> on the code points below 256: the letters \<open>A\<close> to \<open>Z\<close> and the
  accented capitals (192 to 222, without the multiplication sign 215) move up by 32.
\<close>

definition lower_char :: "char \<Rightarrow> char" where
  "lower_char c =
     (let n = (of_char c :: nat) in
      if (65 \<le> n \<and> n \<le> 90) \<or> (192 \<le> n \<and> n \<le> 214) \<or> (216 \<le> n \<and> n \<le> 222)
      then char_of (n + 32) else c)"

definition lower :: "string \<Rightarrow> string" where
  "lower s = map lower_char s"

text \<open>The substring test \<^verbatim>\<open>sub in s\<close>.\<close>

fun contains :: "string \<Rightarrow> string \<Rightarrow> bool" where
  "contains sub [] = (sub = [])"
| "contains sub (c # cs) = (prefix sub (c # cs) \<or> contains sub cs)"

text \<open>Truthiness of an optional string, and \<^verbatim>\<open>x or default\<close> on one.\<close>

definition truthy :: "string option \<Rightarrow> bool" where
  "truthy x = (case x of None \<Rightarrow> False | Some s \<Rightarrow> s \<noteq> [])"

definition str_or :: "string option \<Rightarrow> string \<Rightarrow> string" where
  "str_or x d = (case x of None \<Rightarrow> d | Some s \<Rightarrow> if s \<noteq> [] then s else d)"

section \<open>The parsed event page\<close>

text \<open>
  The HTML parser (BeautifulSoup on lxml) and the date parser (dateutil) are libraries
  outside the repository. A parsed page is represented by what the queries of
  \<^verbatim>\<open>parse_event_page\<close> return on it, in document order:
  \<^item> the \<^verbatim>\<open>meta\<close> tags, each with its \<^verbatim>\<open>property\<close> and \<^verbatim>\<open>content\<close> attributes;
  \<^item> the \<^verbatim>\<open>script\<close> tags, each with its \<^verbatim>\<open>.string\<close> and \<^verbatim>\<open>.text\<close>;
  \<^item> the \<^verbatim>\<open>time\<close> and \<^verbatim>\<open>abbr\<close> tags, each with its \<^verbatim>\<open>datetime\<close> attribute and
    the text \<^verbatim>\<open>get_text(" ", strip=True)\<close>;
  \<^item> for a label word, what the search for a text node with that word finds.
  The date parser is a parameter \<open>dp_parse fuzzy s\<close> of the functions that call it; it
  answers \<open>None\<close> where the library raises.
\<close>

record meta_tag =
  meta_property :: "string option"
  meta_content :: "string option"

record script_tag =
  script_string :: "string option"
  script_text :: string

record time_tag =
  datetime_attr :: "string option"
  tag_text :: string

text \<open>
  What the search for a label finds: no text node with the label; a text node whose
  parent has no element behind it; or the element behind the parent, given by its
  stripped text (what \<^verbatim>\<open>text_or_none\<close> returns on it).
\<close>

datatype label_hit =
    NoTextNode
  | NoNextNode
  | NextNode string

record soup =
  metas :: "meta_tag list"
  scripts :: "script_tag list"
  time_abbrs :: "time_tag list"
  label_hits :: "string \<Rightarrow> label_hit"

record event_record =
  title :: string
  description :: string
  url :: "string option"
  start_dt :: "datetime option"
  end_dt :: "datetime option"
  location :: "string option"

type_synonym date_parser = "bool \<Rightarrow> string \<Rightarrow> datetime option"

definition try_og_meta :: "soup \<Rightarrow> string \<Rightarrow> string option" where
  "try_og_meta sp prop =
     (case find (\<lambda>t. meta_property t = Some prop) (metas sp) of
        None \<Rightarrow> None
      | Some tag \<Rightarrow> meta_content tag)"

text \<open>\<^verbatim>\<open>txt = script.string or script.text or ""\<close>\<close>

definition script_txt :: "script_tag \<Rightarrow> string" where
  "script_txt sc =
     (if truthy (script_string sc) then the (script_string sc)
      else if script_text sc \<noteq> [] then script_text sc
      else [])"

definition script_qualifies :: "string \<Rightarrow> bool" where
  "script_qualifies txt =
     (contains ''event'' (lower txt)
      \<and> (contains ''start'' (lower txt) \<or> contains ''end'' (lower txt)))"

text \<open>
  The body of the inner loop for one candidate \<open>iso_str\<close>, on the pair of \<^verbatim>\<open>start_dt\<close> and
  \<^verbatim>\<open>end_dt\<close>. An exception of the parser or of the comparison is caught and the
  candidate passed over. The comparison is only evaluated when \<^verbatim>\<open>start_dt\<close> is set
  and \<^verbatim>\<open>end_dt\<close> is not.
\<close>

definition scan_candidate ::
  "date_parser \<Rightarrow> datetime option \<times> datetime option \<Rightarrow> string
     \<Rightarrow> datetime option \<times> datetime option" where
  "scan_candidate dp_parse st iso_str =
     (case dp_parse False iso_str of
        None \<Rightarrow> st
      | Some dt \<Rightarrow>
          (case fst st of
             None \<Rightarrow> (Some dt, snd st)
           | Some s \<Rightarrow>
               (if snd st = None then
                  (case dt_ge dt s of
                     Inr True \<Rightarrow> (fst st, Some dt)
                   | Inr False \<Rightarrow> st
                   | Inl err \<Rightarrow> st)
                else st)))"

text \<open>The candidates one script block contributes: none unless its text qualifies.\<close>

definition script_candidates :: "script_tag \<Rightarrow> string list" where
  "script_candidates sc =
     (let txt = script_txt sc in
      if script_qualifies txt then finditer_iso txt else [])"

definition scan_script ::
  "date_parser \<Rightarrow> datetime option \<times> datetime option \<Rightarrow> script_tag
     \<Rightarrow> datetime option \<times> datetime option" where
  "scan_script dp_parse st sc = foldl (scan_candidate dp_parse) st (script_candidates sc)"

definition scan_scripts ::
  "date_parser \<Rightarrow> script_tag list \<Rightarrow> datetime option \<times> datetime option" where
  "scan_scripts dp_parse scs = foldl (scan_script dp_parse) (None, None) scs"

text \<open>\<^verbatim>\<open>p.get("datetime") or p.get_text(" ", strip=True)\<close>\<close>

definition time_source :: "time_tag \<Rightarrow> string" where
  "time_source p =
     (if truthy (datetime_attr p) then the (datetime_attr p) else tag_text p)"

text \<open>
  The fallback loop: one call of the parser per element, with \<^verbatim>\<open>fuzzy=True\<close>; the
  first element on which it returns ends the loop, an element on which it raises is
  passed over.
\<close>

fun time_fallback :: "date_parser \<Rightarrow> time_tag list \<Rightarrow> datetime option" where
  "time_fallback dp_parse [] = None"
| "time_fallback dp_parse (p # ps) =
     (case dp_parse True (time_source p) of
        Some dt \<Rightarrow> Some dt
      | None \<Rightarrow> time_fallback dp_parse ps)"

definition loc_labels :: "string list" where
  "loc_labels = [''Location'', ''Place'', ''Venue'', ''Where'']"

fun location_scan :: "(string \<Rightarrow> label_hit) \<Rightarrow> string option \<Rightarrow> string list \<Rightarrow> string option" where
  "location_scan hits loc [] = loc"
| "location_scan hits loc (lbl # lbls) =
     (case hits lbl of
        NextNode t \<Rightarrow> (if t \<noteq> [] then Some t else location_scan hits (Some t) lbls)
      | NoNextNode \<Rightarrow> location_scan hits loc lbls
      | NoTextNode \<Rightarrow> location_scan hits loc lbls)"

definition parse_event_page :: "date_parser \<Rightarrow> soup \<Rightarrow> event_record" where
  "parse_event_page dp_parse sp =
     (let st = scan_scripts dp_parse (scripts sp);
          start = (if fst st = None then time_fallback dp_parse (time_abbrs sp) else fst st)
      in \<lparr>title = str_or (try_og_meta sp ''og:title'') ''Untitled Event'',
          description = str_or (try_og_meta sp ''og:description'') [],
          url = try_og_meta sp ''og:url'',
          start_dt = start,
          end_dt = snd st,
          location = location_scan (label_hits sp) None loc_labels\<rparr>)"

section \<open>The calendar\<close>

definition PAGE_SLUG :: string where
  "PAGE_SLUG = ''StreamwoodBiking''"

definition BASE :: string where
  "BASE = ''https://m.facebook.com/''"

definition DEFAULT_TZ :: string where
  "DEFAULT_TZ = ''America/Chicago''"

text \<open>
  \<^verbatim>\<open>tz.localize(dt)\<close> of pytz puts the zone on a naive datetime and leaves its fields as
  they are. The offset the zone has at that wall-clock time comes from the time zone
  database, the parameter \<open>zone_offset\<close>. The program compares no datetime after this
  step, so nothing in it depends on the identity of the object attached here.
\<close>

definition localize :: "(string \<Rightarrow> datetime \<Rightarrow> int) \<Rightarrow> datetime \<Rightarrow> datetime" where
  "localize zone_offset dt =
     dt\<lparr>tzinfo := Some \<lparr>tz_id = ZoneTz DEFAULT_TZ (zone_offset DEFAULT_TZ dt),
                        tzname = Some DEFAULT_TZ,
                        utcoffset = zone_offset DEFAULT_TZ dt\<rparr>\<rparr>"

text \<open>Decimal rendering of an integer, as the f-string does.\<close>

function str_nat :: "nat \<Rightarrow> string" where
  "str_nat n =
     (if n < 10 then [char_of (48 + n)]
      else str_nat (n div 10) @ [char_of (48 + n mod 10)])"
  by pat_completeness auto
termination
  by (relation "measure id") auto

declare str_nat.simps [simp del]

definition str_int :: "int \<Rightarrow> string" where
  "str_int i = (if i < 0 then CHR ''-'' # str_nat (nat (- i)) else str_nat (nat i))"

text \<open>
  The event entity of the calendar library, with the attributes \<^verbatim>\<open>build_ics\<close> assigns.
  An attribute that is not assigned stays \<open>None\<close>. The library's setters are taken as
  plain assignments, and its writing of the calendar to a file is not part of the model.
\<close>

record ics_event =
  ev_name :: string
  ev_begin :: "datetime option"
  ev_end :: "datetime option"
  ev_url :: "string option"
  ev_description :: "string option"
  ev_location :: "string option"
  ev_uid :: string

definition ensure_aware :: "(string \<Rightarrow> datetime \<Rightarrow> int) \<Rightarrow> datetime \<Rightarrow> datetime" where
  "ensure_aware zone_offset dt = (if tzinfo dt = None then localize zone_offset dt else dt)"

text \<open>
  The loop body of \<^verbatim>\<open>build_ics\<close> for one record; \<open>now\<close> is the reading of
  \<^verbatim>\<open>int(time.time())\<close> at that record.
\<close>

definition make_event :: "(string \<Rightarrow> datetime \<Rightarrow> int) \<Rightarrow> int \<Rightarrow> event_record \<Rightarrow> ics_event" where
  "make_event zone_offset now e =
     \<lparr>ev_name = title e,
      ev_begin = map_option (ensure_aware zone_offset) (start_dt e),
      ev_end = map_option (ensure_aware zone_offset) (end_dt e),
      ev_url = (if truthy (url e) then url e else None),
      ev_description = (if description e \<noteq> [] then Some (description e) else None),
      ev_location = (if truthy (location e) then location e else None),
      ev_uid = str_or (url e) (PAGE_SLUG @ ''-'' @ str_int now) @ ''@streamwood-biking''\<rparr>"

text \<open>
  \<^verbatim>\<open>build_ics\<close>: the events in the order in which they are added to the calendar;
  \<open>clock i\<close> is the clock reading while the record at position \<open>i\<close> is processed.
\<close>

definition build_ics ::
  "(string \<Rightarrow> datetime \<Rightarrow> int) \<Rightarrow> (nat \<Rightarrow> int) \<Rightarrow> event_record list \<Rightarrow> ics_event list" where
  "build_ics zone_offset clock events =
     map (\<lambda>(i, e). make_event zone_offset (clock i) e) (enumerate 0 events)"

section \<open>The pipeline\<close>

text \<open>
  \<^verbatim>\<open>urljoin(BASE, f"events/{eid}")\<close>: the base ends in a slash and the reference is a
  relative path without dot segments, so the joined address is the concatenation.
\<close>

definition event_url :: "string \<Rightarrow> string" where
  "event_url eid = BASE @ ''events/'' @ eid"

text \<open>
  The loop body of \<^verbatim>\<open>main\<close> for one identifier; \<open>page_content\<close> is the rendering
  collaborator followed by the HTML parser. A navigation that fails ends the run; the
  model describes the runs in which every page is delivered.
\<close>

definition visit :: "date_parser \<Rightarrow> (string \<Rightarrow> soup) \<Rightarrow> string \<Rightarrow> event_record" where
  "visit dp_parse page_content eid =
     (let u = event_url eid;
          details = parse_event_page dp_parse (page_content u)
      in if \<not> truthy (url details) then details\<lparr>url := Some u\<rparr> else details)"

definition main_results :: "date_parser \<Rightarrow> (string \<Rightarrow> soup) \<Rightarrow> string \<Rightarrow> event_record list" where
  "main_results dp_parse page_content html =
     map (visit dp_parse page_content) (main_event_ids html)"

text \<open>\<^verbatim>\<open>results = [r for r in results if r.get("start")]\<close>\<close>

definition drop_unresolved :: "event_record list \<Rightarrow> event_record list" where
  "drop_unresolved results = filter (\<lambda>r. start_dt r \<noteq> None) results"

definition main_calendar ::
  "date_parser \<Rightarrow> (string \<Rightarrow> datetime \<Rightarrow> int) \<Rightarrow> (nat \<Rightarrow> int) \<Rightarrow> (string \<Rightarrow> soup) \<Rightarrow> string
     \<Rightarrow> ics_event list" where
  "main_calendar dp_parse zone_offset clock page_content html =
     build_ics zone_offset clock (drop_unresolved (main_results dp_parse page_content html))"

section \<open>A date parser for the examples\<close>

text \<open>
  The date parser of the examples reads a complete timestamp of the shape the script scan
  looks for and takes any other text as unparsable; the flag \<open>fuzzy\<close> makes no
  difference to it. On the texts of the example pages it answers as the library does.
  Like the library it checks the date and the time of day but not the size of the
  offset, uses one object for UTC, and one object per other offset.
\<close>

definition digits_val :: "string \<Rightarrow> int" where
  "digits_val s = foldl (\<lambda>a c. 10 * a + (int (of_char c) - 48)) 0 s"

definition days_in_month :: "int \<Rightarrow> int \<Rightarrow> int" where
  "days_in_month y m =
     (if m = 2 then (if is_leap y then 29 else 28)
      else if m = 4 \<or> m = 6 \<or> m = 9 \<or> m = 11 then 30 else 31)"

definition iso_offset :: "string \<Rightarrow> int" where
  "iso_offset z =
     (if z = ''Z'' then 0
      else (if take 1 z = ''-'' then - 1 else 1)
             * (digits_val (take 2 (drop 1 z)) * 3600 + digits_val (drop (length z - 2) z) * 60))"

definition iso_zone :: "string \<Rightarrow> tz_info option" where
  "iso_zone z =
     (if z = [] then None
      else if iso_offset z = 0
      then Some \<lparr>tz_id = ParsedTz 0, tzname = Some ''UTC'', utcoffset = 0\<rparr>
      else Some \<lparr>tz_id = ParsedTz (iso_offset z), tzname = None, utcoffset = iso_offset z\<rparr>)"

definition iso_parse :: "bool \<Rightarrow> string \<Rightarrow> datetime option" where
  "iso_parse fuzzy s =
     (case match_iso s of
        None \<Rightarrow> None
      | Some (g, rest) \<Rightarrow>
          (let y = digits_val (take 4 s); mo = digits_val (take 2 (drop 5 s));
               d = digits_val (take 2 (drop 8 s)); h = digits_val (take 2 (drop 11 s));
               mi = digits_val (take 2 (drop 14 s)); se = digits_val (take 2 (drop 17 s))
           in if rest = [] \<and> 1 \<le> y \<and> 1 \<le> mo \<and> mo \<le> 12 \<and> 1 \<le> d \<and> d \<le> days_in_month y mo
                 \<and> h \<le> 23 \<and> mi \<le> 59 \<and> se \<le> 59
              then Some \<lparr>year = y, month = mo, day = d, hour = h, minute = mi, second = se,
                         microsecond = 0, tzinfo = iso_zone (drop 19 s)\<rparr>
              else None))"

section \<open>Example pages and records\<close>

definition listing_aba :: string where
  "listing_aba = ''<a href=/events/123>x</a><a href=/events/456/>y</a><a href=/events/123?r=1>z</a>''"

text \<open>
  A listing as a sequence of code points, with identifiers in Western and in
  Arabic-Indic digits (the code points 1632 to 1641), and a class of digits that holds
  both.
\<close>

definition points :: "string \<Rightarrow> nat list" where
  "points s = map of_char s"

definition two_scripts_digit :: "nat \<Rightarrow> bool" where
  "two_scripts_digit n = ((48 \<le> n \<and> n \<le> 57) \<or> (1632 \<le> n \<and> n \<le> 1641))"

definition two_scripts_listing :: "nat list" where
  "two_scripts_listing =
     points ''<a href=/events/'' @ [1633, 1634, 1635]
       @ points ''><a href=/events/45?x><a href=/events/'' @ [1633, 1634, 1635] @ points ''>''"

definition listing_25 :: string where
  "listing_25 = ''/events/101 /events/102 /events/103 /events/104 /events/105 /events/106 /events/107 /events/108 /events/109 /events/110 /events/111 /events/112 /events/113 /events/114 /events/115 /events/116 /events/117 /events/118 /events/119 /events/120 /events/121 /events/122 /events/123 /events/124 /events/125''"

definition plain_script :: script_tag where
  "plain_script = \<lparr>script_string = Some ''window.x = 1;'', script_text = ''window.x = 1;''\<rparr>"

definition event_script :: script_tag where
  "event_script =
     \<lparr>script_string = Some ''Event = {stamp: 2024-05-01T25:00:00, START: 2024-05-01T10:00:00, end: 2024-05-01T12:00:00}'',
      script_text = ''Event = {stamp: 2024-05-01T25:00:00, START: 2024-05-01T10:00:00, end: 2024-05-01T12:00:00}''\<rparr>"

definition event_page :: soup where
  "event_page =
     \<lparr>metas = [\<lparr>meta_property = Some ''og:title'', meta_content = Some ''Ride''\<rparr>],
      scripts = [plain_script, event_script],
      time_abbrs = [],
      label_hits = (\<lambda>lbl. NoTextNode)\<rparr>"

definition may01_10 :: datetime where
  "may01_10 = \<lparr>year = 2024, month = 5, day = 1, hour = 10, minute = 0, second = 0,
                microsecond = 0, tzinfo = None\<rparr>"

definition may01_12 :: datetime where
  "may01_12 = \<lparr>year = 2024, month = 5, day = 1, hour = 12, minute = 0, second = 0,
                microsecond = 0, tzinfo = None\<rparr>"

definition apr30_09 :: datetime where
  "apr30_09 = \<lparr>year = 2024, month = 4, day = 30, hour = 9, minute = 0, second = 0,
                microsecond = 0, tzinfo = None\<rparr>"

definition earlier_script :: script_tag where
  "earlier_script =
     \<lparr>script_string = Some ''event start 2024-05-01T10:00:00 2024-04-30T09:00:00 2024-05-01T12:00:00'',
      script_text = ''event start 2024-05-01T10:00:00 2024-04-30T09:00:00 2024-05-01T12:00:00''\<rparr>"

definition earlier_page :: soup where
  "earlier_page =
     \<lparr>metas = [], scripts = [earlier_script], time_abbrs = [],
      label_hits = (\<lambda>lbl. NoTextNode)\<rparr>"

definition late_start_script :: script_tag where
  "late_start_script =
     \<lparr>script_string = Some ''event start 2024-05-01T25:00:00 2024-05-01T10:00:00 2024-04-30T09:00:00 2024-05-01T12:00:00'',
      script_text = ''event start 2024-05-01T25:00:00 2024-05-01T10:00:00 2024-04-30T09:00:00 2024-05-01T12:00:00''\<rparr>"

definition late_start_page :: soup where
  "late_start_page =
     \<lparr>metas = [], scripts = [plain_script, late_start_script], time_abbrs = [],
      label_hits = (\<lambda>lbl. NoTextNode)\<rparr>"

definition wide_offset_script :: script_tag where
  "wide_offset_script =
     \<lparr>script_string = Some ''event start 2024-05-01T10:00:00+25:00 end 2024-05-01T12:00:00+01:00'',
      script_text = ''event start 2024-05-01T10:00:00+25:00 end 2024-05-01T12:00:00+01:00''\<rparr>"

definition wide_offset_page :: soup where
  "wide_offset_page =
     \<lparr>metas = [], scripts = [wide_offset_script], time_abbrs = [],
      label_hits = (\<lambda>lbl. NoTextNode)\<rparr>"

definition earlier_only_script :: script_tag where
  "earlier_only_script =
     \<lparr>script_string = Some ''event start 2024-05-01T10:00:00 2024-04-30T09:00:00'',
      script_text = ''event start 2024-05-01T10:00:00 2024-04-30T09:00:00''\<rparr>"

definition earlier_only_page :: soup where
  "earlier_only_page =
     \<lparr>metas = [], scripts = [earlier_only_script], time_abbrs = [],
      label_hits = (\<lambda>lbl. NoTextNode)\<rparr>"

text \<open>The offset of the default zone on the days of the examples: five hours behind UTC.\<close>

definition chicago_offset :: "string \<Rightarrow> datetime \<Rightarrow> int" where
  "chicago_offset zone dt = - 18000"

definition may01_10_utc :: datetime where
  "may01_10_utc = \<lparr>year = 2024, month = 5, day = 1, hour = 10, minute = 0, second = 0,
                    microsecond = 0,
                    tzinfo = Some \<lparr>tz_id = ParsedTz 0, tzname = Some ''UTC'', utcoffset = 0\<rparr>\<rparr>"

definition untimed_record :: event_record where
  "untimed_record =
     \<lparr>title = ''Ride'', description = ''Weekly ride'', url = Some ''https://m.facebook.com/events/1'',
      start_dt = None, end_dt = Some may01_12, location = Some ''Park''\<rparr>"

definition naive_record :: event_record where
  "naive_record =
     \<lparr>title = ''Tour'', description = [], url = None,
      start_dt = Some may01_10, end_dt = Some may01_12, location = None\<rparr>"

definition aware_record :: event_record where
  "aware_record =
     \<lparr>title = ''Race'', description = [], url = Some ''https://m.facebook.com/events/3'',
      start_dt = Some may01_10_utc, end_dt = None, location = None\<rparr>"

definition attr_time_tag :: time_tag where
  "attr_time_tag = \<lparr>datetime_attr = Some ''xyz'', tag_text = ''2024-05-01T10:00:00''\<rparr>"

definition text_time_tag :: time_tag where
  "text_time_tag = \<lparr>datetime_attr = None, tag_text = ''2024-05-01T12:00:00''\<rparr>"

definition attr_page :: soup where
  "attr_page =
     \<lparr>metas = [], scripts = [], time_abbrs = [attr_time_tag],
      label_hits = (\<lambda>lbl. NoTextNode)\<rparr>"

definition time_page :: soup where
  "time_page =
     \<lparr>metas = [], scripts = [], time_abbrs = [attr_time_tag, text_time_tag],
      label_hits = (\<lambda>lbl. NoTextNode)\<rparr>"

section \<open>The invariant of the script scan\<close>

text \<open>
  On the pair of \<^verbatim>\<open>start_dt\<close> and \<^verbatim>\<open>end_dt\<close>: an end is only there together with a
  start that it is not earlier than.
\<close>

definition scan_inv :: "datetime option \<times> datetime option \<Rightarrow> bool" where
  "scan_inv st =
     (case snd st of
        None \<Rightarrow> True
      | Some e \<Rightarrow> (case fst st of None \<Rightarrow> False | Some s \<Rightarrow> dt_ge e s = Inr True))"

section \<open>Properties of the stable-unique filter\<close>

lemma unique_from_positions:
  "unique_from seen xs =
     map (\<lambda>i. xs ! i) (filter (\<lambda>i. xs ! i \<notin> seen \<union> set (take i xs)) [0..<length xs])"
proof (induction xs arbitrary: seen)
  case Nil
  show ?case by simp
next
  case (Cons x xs)
  have upt: "[0..<length (x # xs)] = 0 # map Suc [0..<length xs]"
    by (simp add: upt_conv_Cons map_Suc_upt del: upt_Suc)
  show ?case
    unfolding upt
    by (auto simp: Cons.IH filter_map o_def intro!: arg_cong [of _ _ "map ((!) xs)"] filter_cong)
qed

lemma unique_first_occurrences: "unique xs = first_occurrences xs"
  by (simp add: unique_def first_occurrences_def unique_from_positions)

lemma set_unique_from: "set (unique_from seen xs) = set xs - seen"
  by (induction xs arbitrary: seen) auto

lemma distinct_unique_from: "distinct (unique_from seen xs)"
  by (induction xs arbitrary: seen) (auto simp: set_unique_from)

lemma unique_from_distinct:
  "distinct xs \<Longrightarrow> set xs \<inter> seen = {} \<Longrightarrow> unique_from seen xs = xs"
  by (induction xs arbitrary: seen) auto

lemma distinct_unique: "distinct (unique xs)"
  by (simp add: unique_def distinct_unique_from)

lemma set_unique: "set (unique xs) = set xs"
  by (simp add: unique_def set_unique_from)

lemma unique_distinct: "distinct xs \<Longrightarrow> unique xs = xs"
  by (simp add: unique_def unique_from_distinct)

lemma unique_unique: "unique (unique xs) = unique xs"
  by (simp add: unique_distinct distinct_unique)

lemma length_unique: "length (unique xs) = card (set xs)"
  using distinct_card [OF distinct_unique, of xs] by (simp add: set_unique)

section \<open>The scan and the pattern\<close>

text \<open>
  When the segment is not empty and holds no digit, a match of the pattern holds no
  beginning of another one: a second match that began inside the segment would need a
  digit of the segment, one that began inside the run of digits a segment that begins
  with a digit. So the scan, which goes on behind each match, passes over no position
  at which the pattern stands, and finds them all.
\<close>

lemma tails_positions: "tails s = map (\<lambda>p. drop p s) [0..<length s]"
proof (induction s)
  case Nil
  show ?case by simp
next
  case (Cons x xs)
  have "[0..<length (x # xs)] = 0 # map Suc [0..<length xs]"
    by (simp add: upt_conv_Cons map_Suc_upt del: upt_Suc)
  then show ?case
    by (simp add: Cons.IH o_def)
qed

lemma tails_append: "tails (u @ v) = map (\<lambda>t. t @ v) (tails u) @ tails v"
  by (induction u) simp_all

lemma set_tails:
  "t \<in> set (tails s) \<Longrightarrow> t \<noteq> [] \<and> hd t \<in> set s \<and> length t \<le> length s"
  by (induction s) auto

lemma prefix_nth: "prefix xs ys \<Longrightarrow> i < length xs \<Longrightarrow> xs ! i = ys ! i"
  by (auto simp: prefix_def nth_append)

lemma match_segment_split:
  assumes "match_segment digit seg t = Some (g, rest)"
  shows "t = seg @ g @ rest" and "g \<noteq> []" and "\<forall>c\<in>set g. digit c"
proof -
  from assms have p: "prefix seg t"
    and g: "g = takeWhile digit (drop (length seg) t)"
    and r: "rest = dropWhile digit (drop (length seg) t)"
    and n: "g \<noteq> []"
    by (simp_all add: match_segment_def Let_def split: if_splits)
  from p obtain u where u: "t = seg @ u"
    by (auto simp: prefix_def)
  then have "u = g @ rest"
    by (simp add: g r)
  with u show "t = seg @ g @ rest"
    by simp
  show "g \<noteq> []" by (rule n)
  show "\<forall>c\<in>set g. digit c"
    unfolding g by (auto dest: set_takeWhileD)
qed


lemma prefix_take: "prefix seg t \<longleftrightarrow> take (length seg) t = seg"
proof
  assume "prefix seg t"
  then show "take (length seg) t = seg"
    by (auto simp: prefix_def)
next
  assume h: "take (length seg) t = seg"
  have "prefix (take (length seg) t) t"
    by (rule take_is_prefix)
  then show "prefix seg t"
    by (simp only: h)
qed

lemma match_segment_None:
  "match_segment digit seg t \<noteq> None \<longleftrightarrow>
     take (length seg) t = seg \<and> takeWhile digit (drop (length seg) t) \<noteq> []"
  by (simp add: match_segment_def Let_def prefix_take)

lemma digit_run_nonempty:
  "takeWhile digit (drop n s) \<noteq> [] \<longleftrightarrow> n < length s \<and> digit (s ! n)"
proof (cases "n < length s")
  case True
  then have "drop n s = s ! n # drop (Suc n) s"
    by (simp add: Cons_nth_drop_Suc)
  then show ?thesis using True by simp
next
  case False
  then show ?thesis by simp
qed

lemma match_segment_pattern_at:
  "match_segment digit seg (drop p s) \<noteq> None \<longleftrightarrow> pattern_at digit seg s p"
proof -
  have d: "drop (length seg) (drop p s) = drop (p + length seg) s"
    by (metis drop_drop add.commute)
  show ?thesis
    unfolding match_segment_None d digit_run_nonempty pattern_at_def ..
qed

lemma match_segment_group:
  "match_segment digit seg t \<noteq> None \<Longrightarrow>
   fst (the (match_segment digit seg t)) = takeWhile digit (drop (length seg) t)"
  by (auto simp: match_segment_def Let_def split: if_splits)

lemma skipped_tails:
  assumes "\<forall>t\<in>set (tails u). match_segment digit seg (t @ v) = None"
  shows "filter (\<lambda>t. match_segment digit seg t \<noteq> None) (tails (u @ v))
       = filter (\<lambda>t. match_segment digit seg t \<noteq> None) (tails v)"
  using assms by (simp add: tails_append filter_map o_def filter_empty_conv)


lemma inside_match:
  assumes seg: "seg \<noteq> []" "\<forall>c\<in>set seg. \<not> digit c"
    and g: "g \<noteq> []" "\<forall>c\<in>set g. digit c"
    and t: "t \<in> set (tails (tl seg @ g))"
  shows "match_segment digit seg (t @ rest) = None"
proof (rule ccontr)
  assume "match_segment digit seg (t @ rest) \<noteq> None"
  then have pre: "prefix seg (t @ rest)"
    by (simp add: match_segment_def split: if_splits)
  from g have hd_g: "digit (hd g)"
    by simp
  from t consider u where "u \<in> set (tails (tl seg))" and "t = u @ g" | "t \<in> set (tails g)"
    by (auto simp: tails_append)
  then show False
  proof cases
    case 1
    from set_tails [OF 1(1)] have "length u \<le> length (tl seg)"
      by simp
    with seg(1) have lt: "length u < length seg"
      by (cases seg) simp_all
    from prefix_nth [OF pre lt] have "seg ! length u = (u @ g @ rest) ! length u"
      by (simp add: 1(2))
    also have "\<dots> = hd g"
      using g(1) by (simp add: nth_append hd_conv_nth)
    finally have "digit (seg ! length u)"
      using hd_g by simp
    moreover from lt have "seg ! length u \<in> set seg"
      by simp
    ultimately show False
      using seg(2) by blast
  next
    case 2
    from set_tails [OF 2] have tne: "t \<noteq> []" and "hd t \<in> set g"
      by simp_all
    with g(2) have "digit (hd t)"
      by blast
    moreover from seg(1) have "0 < length seg"
      by simp
    from prefix_nth [OF pre this] tne have "hd seg = hd t"
      using seg(1) by (simp add: hd_conv_nth nth_append)
    moreover from seg have "\<not> digit (hd seg)"
      by simp
    ultimately show False by simp
  qed
qed

lemma finditer_segment_tails:
  assumes "seg \<noteq> []" and "\<forall>c\<in>set seg. \<not> digit c"
  shows "finditer_segment digit seg s =
     map (\<lambda>t. takeWhile digit (drop (length seg) t))
       (filter (\<lambda>t. match_segment digit seg t \<noteq> None) (tails s))"
  using assms
proof (induction digit seg s rule: finditer_segment.induct)
  case (1 digit seg)
  show ?case by simp
next
  case (2 digit seg c cs)
  show ?case
  proof (cases "match_segment digit seg (c # cs)")
    case None
    with 2 show ?thesis by simp
  next
    case (Some m)
    obtain g rest where m: "m = (g, rest)"
      by (cases m)
    note split = match_segment_split [OF Some [unfolded m]]
    from split(1) "2.prems"(1) have cs: "cs = (tl seg @ g) @ rest"
      by (cases seg) simp_all
    have "\<forall>t\<in>set (tails (tl seg @ g)). match_segment digit seg (t @ rest) = None"
      using inside_match [OF "2.prems" split(2,3)] by blast
    then have skip: "filter (\<lambda>t. match_segment digit seg t \<noteq> None) (tails cs)
        = filter (\<lambda>t. match_segment digit seg t \<noteq> None) (tails rest)"
      unfolding cs by (rule skipped_tails)
    have grp: "takeWhile digit (drop (length seg) (c # cs)) = g"
      using match_segment_group [of digit seg "c # cs"] Some m by simp
    from "2.IH"(2) [OF Some m [symmetric] "2.prems"]
    have "finditer_segment digit seg rest =
        map (\<lambda>t. takeWhile digit (drop (length seg) t))
          (filter (\<lambda>t. match_segment digit seg t \<noteq> None) (tails rest))" .
    then show ?thesis
      using Some m skip grp by simp
  qed
qed

lemma pattern_matches_tails:
  "pattern_matches digit seg s =
     map (\<lambda>t. takeWhile digit (drop (length seg) t))
       (filter (\<lambda>t. match_segment digit seg t \<noteq> None) (tails s))"
proof -
  have "filter (\<lambda>t. match_segment digit seg t \<noteq> None) (tails s)
      = map (\<lambda>p. drop p s) (filter (pattern_at digit seg s) [0..<length s])"
    unfolding tails_positions filter_map o_def
    by (rule arg_cong [where f = "map (\<lambda>p. drop p s)"], rule filter_cong)
       (simp_all only: match_segment_pattern_at)
  then show ?thesis
    by (simp add: pattern_matches_def o_def add.commute)
qed

lemma finditer_segment_pattern_matches:
  "seg \<noteq> [] \<Longrightarrow> \<forall>c\<in>set seg. \<not> digit c \<Longrightarrow>
   finditer_segment digit seg text = pattern_matches digit seg text"
  by (simp add: finditer_segment_tails pattern_matches_tails)

lemma events_segment: "''/events/'' \<noteq> [] \<and> (\<forall>c\<in>set ''/events/''. \<not> is_digit c)"
  by (simp add: is_digit_def)

lemma finditer_events_pattern_matches:
  "finditer_events html = pattern_matches is_digit ''/events/'' html"
  unfolding finditer_events_def
  using events_segment by (intro finditer_segment_pattern_matches) blast+

section \<open>Properties of the script scan\<close>

lemma foldl_scan_script:
  "foldl (scan_script dp) st scs = foldl (scan_candidate dp) st (concat (map script_candidates scs))"
  by (induction scs arbitrary: st) (simp_all add: scan_script_def)

lemma scan_scripts_concat:
  "scan_scripts dp scs = foldl (scan_candidate dp) (None, None) (concat (map script_candidates scs))"
  by (simp add: scan_scripts_def foldl_scan_script)

lemma scan_unparsed:
  "\<forall>c\<in>set cs. dp False c = None \<Longrightarrow> foldl (scan_candidate dp) st cs = st"
  by (induction cs arbitrary: st) (simp_all add: scan_candidate_def)

lemma scan_rejected:
  "\<forall>c\<in>set cs. \<forall>d. dp False c = Some d \<longrightarrow> dt_ge d s \<noteq> Inr True \<Longrightarrow>
   foldl (scan_candidate dp) (Some s, None) cs = (Some s, None)"
proof (induction cs)
  case Nil
  show ?case by simp
next
  case (Cons c cs)
  have "scan_candidate dp (Some s, None) c = (Some s, None)"
    using Cons.prems by (auto simp: scan_candidate_def split: option.splits sum.splits bool.splits)
  with Cons show ?case by simp
qed

lemma scan_settled:
  "foldl (scan_candidate dp) (Some s, Some e) cs = (Some s, Some e)"
proof (induction cs)
  case Nil
  show ?case by simp
next
  case (Cons c cs)
  have "scan_candidate dp (Some s, Some e) c = (Some s, Some e)"
    by (simp add: scan_candidate_def split: option.splits)
  with Cons show ?case by simp
qed

lemma scan_first:
  "dp False c = Some d \<Longrightarrow> scan_candidate dp (None, None) c = (Some d, None)"
  by (simp add: scan_candidate_def)

lemma scan_accept:
  "dp False c = Some d \<Longrightarrow> dt_ge d s = Inr True \<Longrightarrow>
   scan_candidate dp (Some s, None) c = (Some s, Some d)"
  by (simp add: scan_candidate_def)

lemma scan_start_end:
  assumes "\<forall>c\<in>set pre. dp False c = None"
    and "dp False T1 = Some d1"
    and "\<forall>c\<in>set mid. \<forall>d. dp False c = Some d \<longrightarrow> dt_ge d d1 \<noteq> Inr True"
    and "dp False T2 = Some d2"
    and "dt_ge d2 d1 = Inr True"
  shows "foldl (scan_candidate dp) (None, None) (pre @ T1 # mid @ T2 # post) = (Some d1, Some d2)"
  using assms
  by (simp add: scan_unparsed scan_first scan_rejected scan_accept scan_settled)

lemma scan_start_fixed:
  "fst st = Some s \<Longrightarrow> fst (foldl (scan_candidate dp) st cs) = Some s"
proof (induction cs arbitrary: st)
  case Nil
  then show ?case by simp
next
  case (Cons c cs)
  have "fst (scan_candidate dp st c) = Some s"
    using Cons.prems
    by (auto simp: scan_candidate_def split: option.splits sum.splits bool.splits)
  then show ?case by (simp add: Cons.IH)
qed

lemma scan_candidate_inv: "scan_inv st \<Longrightarrow> scan_inv (scan_candidate dp st c)"
  by (cases st) (auto simp: scan_inv_def scan_candidate_def split: option.splits sum.splits bool.splits)

lemma foldl_scan_inv: "scan_inv st \<Longrightarrow> scan_inv (foldl (scan_candidate dp) st cs)"
  by (induction cs arbitrary: st) (simp_all add: scan_candidate_inv)

lemma scan_scripts_inv: "scan_inv (scan_scripts dp scs)"
  unfolding scan_scripts_concat by (rule foldl_scan_inv) (simp add: scan_inv_def)

lemma parse_event_page_start:
  "start_dt (parse_event_page dp sp) =
     (if fst (scan_scripts dp (scripts sp)) = None then time_fallback dp (time_abbrs sp)
      else fst (scan_scripts dp (scripts sp)))"
  by (simp add: parse_event_page_def Let_def)

lemma parse_event_page_end:
  "end_dt (parse_event_page dp sp) = snd (scan_scripts dp (scripts sp))"
  by (simp add: parse_event_page_def Let_def)

lemma time_fallback_skip:
  "\<forall>q\<in>set before. dp True (time_source q) = None \<Longrightarrow>
   time_fallback dp (before @ ps) = time_fallback dp ps"
  by (induction before) simp_all

section \<open>Properties of the calendar\<close>

lemma build_ics_nth:
  "i < length rs \<Longrightarrow> build_ics z c rs ! i = make_event z (c i) (rs ! i)"
  by (simp add: build_ics_def nth_enumerate_eq)

lemma length_build_ics: "length (build_ics z c rs) = length rs"
  by (simp add: build_ics_def)

lemma map_build_ics:
  "map f (build_ics z c rs) = map (\<lambda>(i, e). f (make_event z (c i) e)) (enumerate 0 rs)"
  by (simp add: build_ics_def split_def o_def)

lemma map_snd_enumerate: "map (\<lambda>(i, e). g e) (enumerate n rs) = map g rs"
  by (induction rs arbitrary: n) simp_all

lemma build_ics_begin:
  "\<forall>r\<in>set rs. start_dt r \<noteq> None \<Longrightarrow> \<forall>ev\<in>set (build_ics z c rs). ev_begin ev \<noteq> None"
proof
  fix ev
  assume all: "\<forall>r\<in>set rs. start_dt r \<noteq> None" and "ev \<in> set (build_ics z c rs)"
  then obtain i where i: "i < length rs" and ev: "ev = build_ics z c rs ! i"
    by (auto simp: in_set_conv_nth length_build_ics)
  from all i have "start_dt (rs ! i) \<noteq> None"
    using nth_mem by blast
  then show "ev_begin ev \<noteq> None"
    by (simp add: ev build_ics_nth [OF i] make_event_def)
qed

lemma truthy_url_visit: "truthy (url (visit dp pc eid))"
  by (simp add: visit_def Let_def truthy_def event_url_def BASE_def)

lemma uid_of_url: "truthy (url e) \<Longrightarrow> ev_uid (make_event z n e) = the (url e) @ ''@streamwood-biking''"
  by (auto simp: make_event_def str_or_def truthy_def split: option.splits)

lemma make_event_clock: "truthy (url e) \<Longrightarrow> make_event z n e = make_event z n' e"
  by (auto simp: make_event_def str_or_def truthy_def split: option.splits)

lemma build_ics_clock:
  "\<forall>r\<in>set rs. truthy (url r) \<Longrightarrow> build_ics z c rs = build_ics z c' rs"
  by (rule nth_equalityI) (simp_all add: length_build_ics build_ics_nth make_event_clock)

lemma build_ics_uid:
  "\<forall>r\<in>set rs. truthy (url r) \<Longrightarrow>
   map ev_uid (build_ics z c rs) = map (\<lambda>r. the (url r) @ ''@streamwood-biking'') rs"
  by (rule nth_equalityI) (simp_all add: length_build_ics build_ics_nth uid_of_url)


section \<open>Identifier extraction: the claims\<close>

text \<open>
  C1. For every listing text, \<open>extract_event_ids\<close> returns the identifiers of the
  positions at which the pattern \<^verbatim>\<open>/events/(\d+)\<close> stands in the text, in document
  order, keeping of every identifier only its first occurrence: the match at position
  \<open>i\<close> of that sequence is kept exactly when it does not occur before position \<open>i\<close>.
  In particular, when the matches are \<open>a\<close>, \<open>b\<close>, \<open>a\<close> with \<open>a \<noteq> b\<close>, the result
  is \<open>[a, b]\<close>. The same holds of the scan and the filter over any alphabet and class
  of digits, for a segment that is not empty and holds no digit.
\<close>

theorem extract_event_ids_first_occurrences:
  "extract_event_ids html = first_occurrences (pattern_matches is_digit ''/events/'' html)
   \<and> (pattern_matches is_digit ''/events/'' html = [a, b, a] \<and> a \<noteq> b \<longrightarrow>
        extract_event_ids html = [a, b])
   \<and> (seg \<noteq> [] \<and> (\<forall>c\<in>set seg. \<not> digit c) \<longrightarrow>
        unique (finditer_segment digit seg text)
          = first_occurrences (pattern_matches digit seg text))"
proof -
  have eq: "extract_event_ids html = unique (pattern_matches is_digit ''/events/'' html)"
    by (simp add: extract_event_ids_def finditer_events_pattern_matches)
  have aba: "pattern_matches is_digit ''/events/'' html = [a, b, a] \<Longrightarrow> a \<noteq> b \<Longrightarrow>
      unique (pattern_matches is_digit ''/events/'' html) = [a, b]"
    by (simp add: unique_def)
  have "seg \<noteq> [] \<Longrightarrow> \<forall>c\<in>set seg. \<not> digit c \<Longrightarrow>
      unique (finditer_segment digit seg text) = first_occurrences (pattern_matches digit seg text)"
    by (simp add: finditer_segment_pattern_matches unique_first_occurrences)
  with aba show ?thesis
    unfolding eq by (simp add: unique_first_occurrences [symmetric])
qed

theorem extract_event_ids_first_occurrences_witness:
  "pattern_matches is_digit ''/events/'' listing_aba = [''123'', ''456'', ''123'']
   \<and> first_occurrences (pattern_matches is_digit ''/events/'' listing_aba) = [''123'', ''456'']
   \<and> extract_event_ids listing_aba = [''123'', ''456'']
   \<and> pattern_matches two_scripts_digit (points ''/events/'') two_scripts_listing
       = [[1633, 1634, 1635], [52, 53], [1633, 1634, 1635]]
   \<and> unique (finditer_segment two_scripts_digit (points ''/events/'') two_scripts_listing)
       = [[1633, 1634, 1635], [52, 53]]"
proof -
  have m: "pattern_matches is_digit ''/events/'' listing_aba = [''123'', ''456'', ''123'']"
    by code_simp
  have d: "''123'' \<noteq> ''456''"
    by simp
  from extract_event_ids_first_occurrences [of listing_aba "''123''" "''456''"] m d
  have e: "extract_event_ids listing_aba = [''123'', ''456'']"
    by blast
  from extract_event_ids_first_occurrences [of listing_aba "''123''" "''456''"]
  have "extract_event_ids listing_aba
      = first_occurrences (pattern_matches is_digit ''/events/'' listing_aba)"
    by blast
  with e have f: "first_occurrences (pattern_matches is_digit ''/events/'' listing_aba)
      = [''123'', ''456'']"
    by simp
  have n: "points ''/events/'' \<noteq> []"
    by (simp add: points_def)
  have nd: "\<forall>c\<in>set (points ''/events/''). \<not> two_scripts_digit c"
    by (simp add: points_def two_scripts_digit_def)
  have pm: "pattern_matches two_scripts_digit (points ''/events/'') two_scripts_listing
       = [[1633, 1634, 1635], [52, 53], [1633, 1634, 1635]]"
    by code_simp
  have fo: "first_occurrences [[1633, 1634, 1635], [52, 53], [1633, 1634, 1635 :: nat]]
       = [[1633, 1634, 1635], [52, 53]]"
    by code_simp
  from extract_event_ids_first_occurrences
    [of listing_aba _ _ "points ''/events/''" two_scripts_digit two_scripts_listing] n nd
  have "unique (finditer_segment two_scripts_digit (points ''/events/'') two_scripts_listing)
       = first_occurrences (pattern_matches two_scripts_digit (points ''/events/'') two_scripts_listing)"
    by blast
  then have u: "unique (finditer_segment two_scripts_digit (points ''/events/'') two_scripts_listing)
       = [[1633, 1634, 1635], [52, 53]]"
    by (simp only: pm fo)
  from m f e pm u show ?thesis by simp
qed

text \<open>
  C10. The stable-unique filter is idempotent on the extractor's result: applying
  \<open>unique\<close> once more, as \<^verbatim>\<open>main\<close> does before the cap, gives the same list, for every
  listing text.
\<close>

theorem unique_extract_event_ids:
  "unique (extract_event_ids html) = extract_event_ids html"
  by (simp add: extract_event_ids_def unique_unique)

text \<open>
  C7. When the listing text has at least 20 distinct identifiers among its matches, the
  capped working set of \<^verbatim>\<open>main\<close> is the first 20 of the first occurrences, in their
  order: it has 20 entries and no duplicate. When the matches are themselves distinct
  and at least 20, it is the first 20 matches.
\<close>

theorem main_event_ids_cap:
  "(20 \<le> card (set (finditer_events html)) \<longrightarrow>
      main_event_ids html = take 20 (first_occurrences (finditer_events html))
      \<and> length (main_event_ids html) = 20 \<and> distinct (main_event_ids html))
   \<and> (distinct (finditer_events html) \<and> 20 \<le> length (finditer_events html) \<longrightarrow>
      main_event_ids html = take 20 (finditer_events html))"
proof -
  have eq: "main_event_ids html = take 20 (unique (finditer_events html))"
    by (simp add: main_event_ids_def extract_event_ids_def unique_unique)
  have "distinct (main_event_ids html)"
    unfolding eq by (rule distinct_take) (rule distinct_unique)
  moreover have "20 \<le> card (set (finditer_events html)) \<Longrightarrow> length (main_event_ids html) = 20"
    by (simp add: eq length_unique)
  ultimately show ?thesis
    by (auto simp: eq unique_first_occurrences [symmetric] unique_distinct)
qed

theorem main_event_ids_cap_witness:
  "distinct (finditer_events listing_25) \<and> length (finditer_events listing_25) = 25
   \<and> card (set (finditer_events listing_25)) = 25
   \<and> length (main_event_ids listing_25) = 20
   \<and> main_event_ids listing_25 = take 20 (finditer_events listing_25)
   \<and> main_event_ids listing_25 =
       [''101'', ''102'', ''103'', ''104'', ''105'', ''106'', ''107'', ''108'', ''109'', ''110'',
        ''111'', ''112'', ''113'', ''114'', ''115'', ''116'', ''117'', ''118'', ''119'', ''120'']"
proof -
  have m: "finditer_events listing_25 =
      [''101'', ''102'', ''103'', ''104'', ''105'', ''106'', ''107'', ''108'', ''109'', ''110'',
       ''111'', ''112'', ''113'', ''114'', ''115'', ''116'', ''117'', ''118'', ''119'', ''120'',
       ''121'', ''122'', ''123'', ''124'', ''125'']"
    by code_simp
  have d: "distinct (finditer_events listing_25)"
    unfolding m by simp
  have l: "20 \<le> length (finditer_events listing_25)"
    unfolding m by simp
  have c: "card (set (finditer_events listing_25)) = 25"
    using distinct_card [OF d] by (simp add: m)
  have c20: "20 \<le> card (set (finditer_events listing_25))"
    by (simp add: c)
  from main_event_ids_cap [of listing_25] c20
  have n: "length (main_event_ids listing_25) = 20"
    by blast
  from main_event_ids_cap [of listing_25] d l
  have "main_event_ids listing_25 = take 20 (finditer_events listing_25)"
    by blast
  with d c n show ?thesis by (simp add: m)
qed

section \<open>The event page parser: the claims\<close>

text \<open>
  An offset of 24 hours or more: the parser returns the datetime, the comparison with
  a datetime of another zone raises, and the scan passes over the later candidate.
\<close>

lemma wide_offset_comparison:
  "iso_parse False ''2024-05-01T10:00:00+25:00''
     = Some \<lparr>year = 2024, month = 5, day = 1, hour = 10, minute = 0, second = 0, microsecond = 0,
             tzinfo = Some \<lparr>tz_id = ParsedTz 90000, tzname = None, utcoffset = 90000\<rparr>\<rparr>
   \<and> dt_ge (the (iso_parse False ''2024-05-01T12:00:00+01:00''))
           (the (iso_parse False ''2024-05-01T10:00:00+25:00'')) = Inl ValueError
   \<and> start_dt (parse_event_page iso_parse wide_offset_page)
       = iso_parse False ''2024-05-01T10:00:00+25:00''
   \<and> end_dt (parse_event_page iso_parse wide_offset_page) = None"
  by code_simp

text \<open>
  C2. Let a page have a script block whose text qualifies (its lower-case text contains
  \<open>event\<close> together with \<open>start\<close> or \<open>end\<close>) and in which the timestamp pattern
  finds \<open>T1\<close> and later \<open>T2\<close>, where \<open>T1\<close> is the first candidate that parses, \<open>T2\<close>
  parses, \<open>T2 \<ge> T1\<close> evaluates to true, and every candidate between them fails to
  parse or is not accepted against \<open>T1\<close>; let no candidate of an earlier script block
  parse. Then the parser resolves \<open>start\<close> to \<open>T1\<close> and \<open>end\<close> to \<open>T2\<close>.
\<close>

theorem script_scan_start_then_end:
  assumes "scripts sp = before @ sc # after"
    and "\<forall>b\<in>set before. \<forall>c\<in>set (script_candidates b). dp_parse False c = None"
    and "script_qualifies (script_txt sc)"
    and "finditer_iso (script_txt sc) = pre @ T1 # mid @ T2 # post"
    and "\<forall>c\<in>set pre. dp_parse False c = None"
    and "dp_parse False T1 = Some d1"
    and "\<forall>c\<in>set mid. \<forall>d. dp_parse False c = Some d \<longrightarrow> dt_ge d d1 \<noteq> Inr True"
    and "dp_parse False T2 = Some d2"
    and "dt_ge d2 d1 = Inr True"
  shows "start_dt (parse_event_page dp_parse sp) = Some d1
       \<and> end_dt (parse_event_page dp_parse sp) = Some d2"
proof -
  let ?pre = "concat (map script_candidates before) @ pre"
  let ?post = "post @ concat (map script_candidates after)"
  have cands: "concat (map script_candidates (scripts sp)) = ?pre @ T1 # mid @ T2 # ?post"
    using assms(1,3,4) by (simp add: script_candidates_def)
  have pre: "\<forall>c\<in>set ?pre. dp_parse False c = None"
    using assms(2,5) by auto
  have "scan_scripts dp_parse (scripts sp) = (Some d1, Some d2)"
    unfolding scan_scripts_concat cands
    by (rule scan_start_end [where dp = dp_parse, OF pre assms(6,7,8,9)])
  then show ?thesis
    by (simp add: parse_event_page_start parse_event_page_end)
qed

theorem script_scan_start_then_end_witness:
  "script_qualifies (script_txt event_script)
   \<and> script_candidates plain_script = []
   \<and> finditer_iso (script_txt event_script)
       = [''2024-05-01T25:00:00'', ''2024-05-01T10:00:00'', ''2024-05-01T12:00:00'']
   \<and> iso_parse False ''2024-05-01T25:00:00'' = None
   \<and> iso_parse False ''2024-05-01T10:00:00'' = Some may01_10
   \<and> iso_parse False ''2024-05-01T12:00:00'' = Some may01_12
   \<and> dt_ge may01_12 may01_10 = Inr True
   \<and> start_dt (parse_event_page iso_parse event_page) = Some may01_10
   \<and> end_dt (parse_event_page iso_parse event_page) = Some may01_12"
proof -
  have s: "scripts event_page = [plain_script] @ event_script # []"
    by (simp add: event_page_def)
  have b0: "script_candidates plain_script = []"
    by code_simp
  have b: "\<forall>b\<in>set [plain_script]. \<forall>c\<in>set (script_candidates b). iso_parse False c = None"
    by (simp add: b0)
  have q: "script_qualifies (script_txt event_script)"
    by code_simp
  have f0: "finditer_iso (script_txt event_script)
       = [''2024-05-01T25:00:00'', ''2024-05-01T10:00:00'', ''2024-05-01T12:00:00'']"
    by code_simp
  have f: "finditer_iso (script_txt event_script)
       = [''2024-05-01T25:00:00''] @ ''2024-05-01T10:00:00'' # [] @ ''2024-05-01T12:00:00'' # []"
    by (simp add: f0)
  have p00: "iso_parse False ''2024-05-01T25:00:00'' = None"
    by code_simp
  have p0: "\<forall>c\<in>set [''2024-05-01T25:00:00'']. iso_parse False c = None"
    by (simp add: p00)
  have p1: "iso_parse False ''2024-05-01T10:00:00'' = Some may01_10"
    by code_simp
  have mid: "\<forall>c\<in>set []. \<forall>d. iso_parse False c = Some d \<longrightarrow> dt_ge d may01_10 \<noteq> Inr True"
    by simp
  have p2: "iso_parse False ''2024-05-01T12:00:00'' = Some may01_12"
    by code_simp
  have g: "dt_ge may01_12 may01_10 = Inr True"
    by code_simp
  note script_scan_start_then_end [where dp_parse = iso_parse, OF s b q f p0 p1 mid p2 g]
  with q b0 f0 p00 p1 p2 g show ?thesis by simp
qed

text \<open>
  C3, as amended. Let \<open>T1\<close> be the first candidate of a page's qualifying script blocks
  that parses, and let a later candidate \<open>T2\<close> parse with \<open>T2 \<ge> T1\<close> evaluating to
  false. Then \<open>start\<close> is \<open>T1\<close> and \<open>T2\<close> is not accepted as \<open>end\<close>. The scan goes
  on: when no other candidate behind \<open>T1\<close> is accepted against it, \<open>end\<close> stays
  unset; when a candidate \<open>T3\<close> behind \<open>T2\<close> parses with \<open>T3 \<ge> T1\<close> evaluating to
  true, and none between \<open>T1\<close> and \<open>T3\<close> is accepted, \<open>end\<close> is \<open>T3\<close>.
\<close>

theorem script_scan_earlier_candidate:
  assumes "concat (map script_candidates (scripts sp)) = pre @ T1 # mid @ T2 # rest"
    and "\<forall>c\<in>set pre. dp_parse False c = None"
    and "dp_parse False T1 = Some d1"
    and "dp_parse False T2 = Some d2"
    and "dt_ge d2 d1 = Inr False"
  shows "start_dt (parse_event_page dp_parse sp) = Some d1
       \<and> end_dt (parse_event_page dp_parse sp) \<noteq> Some d2
       \<and> ((\<forall>c\<in>set (mid @ rest). \<forall>d. dp_parse False c = Some d \<longrightarrow> dt_ge d d1 \<noteq> Inr True) \<longrightarrow>
            end_dt (parse_event_page dp_parse sp) = None)
       \<and> (\<forall>later T3 post d3.
            rest = later @ T3 # post
            \<and> (\<forall>c\<in>set (mid @ later). \<forall>d. dp_parse False c = Some d \<longrightarrow> dt_ge d d1 \<noteq> Inr True)
            \<and> dp_parse False T3 = Some d3 \<and> dt_ge d3 d1 = Inr True \<longrightarrow>
            end_dt (parse_event_page dp_parse sp) = Some d3)"
proof -
  let ?R = "mid @ T2 # rest"
  let ?r = "foldl (scan_candidate dp_parse) (Some d1, None) ?R"
  have "foldl (scan_candidate dp_parse) (None, None) (pre @ T1 # ?R) = ?r"
    using assms(2,3) by (simp add: scan_unparsed scan_first)
  then have scan: "scan_scripts dp_parse (scripts sp) = ?r"
    by (simp add: scan_scripts_concat assms(1))
  have "scan_inv (Some d1, None)"
    by (simp add: scan_inv_def)
  then have inv: "scan_inv ?r"
    by (rule foldl_scan_inv)
  have fst_r: "fst ?r = Some d1"
    by (rule scan_start_fixed) simp
  have start: "start_dt (parse_event_page dp_parse sp) = Some d1"
    unfolding parse_event_page_start scan fst_r by simp
  have e: "end_dt (parse_event_page dp_parse sp) = snd ?r"
    unfolding parse_event_page_end scan ..
  have not_d2: "snd ?r \<noteq> Some d2"
    using inv fst_r assms(5) by (auto simp: scan_inv_def split: option.splits)
  have t2: "\<forall>d. dp_parse False T2 = Some d \<longrightarrow> dt_ge d d1 \<noteq> Inr True"
    using assms(4,5) by simp
  have none: "snd ?r = None"
    if "\<forall>c\<in>set (mid @ rest). \<forall>d. dp_parse False c = Some d \<longrightarrow> dt_ge d d1 \<noteq> Inr True"
  proof -
    from that t2
    have "\<forall>c\<in>set ?R. \<forall>d. dp_parse False c = Some d \<longrightarrow> dt_ge d d1 \<noteq> Inr True"
      by auto
    then have "?r = (Some d1, None)"
      by (rule scan_rejected)
    then show ?thesis by simp
  qed
  have later: "snd ?r = Some d3"
    if "rest = later @ T3 # post"
      and "\<forall>c\<in>set (mid @ later). \<forall>d. dp_parse False c = Some d \<longrightarrow> dt_ge d d1 \<noteq> Inr True"
      and "dp_parse False T3 = Some d3" and "dt_ge d3 d1 = Inr True"
    for later T3 post d3
  proof -
    from that(2) t2
    have rej: "\<forall>c\<in>set (mid @ T2 # later). \<forall>d. dp_parse False c = Some d \<longrightarrow> dt_ge d d1 \<noteq> Inr True"
      by auto
    have "?R = (mid @ T2 # later) @ T3 # post"
      by (simp add: that(1))
    then have "?r = foldl (scan_candidate dp_parse)
        (scan_candidate dp_parse
          (foldl (scan_candidate dp_parse) (Some d1, None) (mid @ T2 # later)) T3) post"
      by (simp only: foldl_append foldl_Cons)
    also have "\<dots> = (Some d1, Some d3)"
      by (simp only: scan_rejected [where dp = dp_parse, OF rej]
          scan_accept [where dp = dp_parse, OF that(3,4)] scan_settled)
    finally show ?thesis by simp
  qed
  show ?thesis
    using start not_d2 none later unfolding e by blast
qed

theorem script_scan_earlier_candidate_witness:
  "concat (map script_candidates (scripts late_start_page))
       = [''2024-05-01T25:00:00'', ''2024-05-01T10:00:00'', ''2024-04-30T09:00:00'',
          ''2024-05-01T12:00:00'']
   \<and> iso_parse False ''2024-05-01T25:00:00'' = None
   \<and> iso_parse False ''2024-05-01T10:00:00'' = Some may01_10
   \<and> iso_parse False ''2024-04-30T09:00:00'' = Some apr30_09
   \<and> iso_parse False ''2024-05-01T12:00:00'' = Some may01_12
   \<and> dt_ge apr30_09 may01_10 = Inr False
   \<and> dt_ge may01_12 may01_10 = Inr True
   \<and> start_dt (parse_event_page iso_parse late_start_page) = Some may01_10
   \<and> end_dt (parse_event_page iso_parse late_start_page) = Some may01_12
   \<and> concat (map script_candidates (scripts earlier_only_page))
       = [''2024-05-01T10:00:00'', ''2024-04-30T09:00:00'']
   \<and> end_dt (parse_event_page iso_parse earlier_only_page) = None"
proof -
  have f: "concat (map script_candidates (scripts late_start_page))
       = [''2024-05-01T25:00:00''] @ ''2024-05-01T10:00:00'' # [] @ ''2024-04-30T09:00:00''
           # [''2024-05-01T12:00:00'']"
    by code_simp
  have p0: "iso_parse False ''2024-05-01T25:00:00'' = None"
    by code_simp
  have pre: "\<forall>c\<in>set [''2024-05-01T25:00:00'']. iso_parse False c = None"
    by (simp add: p0)
  have p1: "iso_parse False ''2024-05-01T10:00:00'' = Some may01_10"
    by code_simp
  have p2: "iso_parse False ''2024-04-30T09:00:00'' = Some apr30_09"
    by code_simp
  have p3: "iso_parse False ''2024-05-01T12:00:00'' = Some may01_12"
    by code_simp
  have g2: "dt_ge apr30_09 may01_10 = Inr False"
    by code_simp
  have g3: "dt_ge may01_12 may01_10 = Inr True"
    by code_simp
  have three: "start_dt (parse_event_page iso_parse late_start_page) = Some may01_10
      \<and> end_dt (parse_event_page iso_parse late_start_page) = Some may01_12"
    using script_scan_earlier_candidate [where dp_parse = iso_parse, OF f pre p1 p2 g2] p3 g3
    by (metis append_Nil empty_iff list.set(1))
  have f': "concat (map script_candidates (scripts earlier_only_page))
       = [] @ ''2024-05-01T10:00:00'' # [] @ ''2024-04-30T09:00:00'' # []"
    by code_simp
  have pre': "\<forall>c\<in>set []. iso_parse False c = None"
    by simp
  have two: "end_dt (parse_event_page iso_parse earlier_only_page) = None"
    using script_scan_earlier_candidate [where dp_parse = iso_parse, OF f' pre' p1 p2 g2]
    by simp
  from f p0 p1 p2 p3 g2 g3 three f' two show ?thesis by simp
qed

text \<open>
  The claim as it was stated fails: on a page whose script has the candidates \<open>T1\<close>,
  then \<open>T2 < T1\<close>, then \<open>T3 \<ge> T1\<close>, the parser sets \<open>end\<close> to \<open>T3\<close>.
\<close>

theorem script_scan_earlier_candidate_counterexample:
  "scripts earlier_page = [earlier_script]
   \<and> script_qualifies (script_txt earlier_script)
   \<and> finditer_iso (script_txt earlier_script)
       = [''2024-05-01T10:00:00'', ''2024-04-30T09:00:00'', ''2024-05-01T12:00:00'']
   \<and> iso_parse False ''2024-05-01T10:00:00'' = Some may01_10
   \<and> iso_parse False ''2024-04-30T09:00:00'' = Some apr30_09
   \<and> iso_parse False ''2024-05-01T12:00:00'' = Some may01_12
   \<and> dt_ge apr30_09 may01_10 = Inr False
   \<and> dt_ge may01_12 may01_10 = Inr True
   \<and> end_dt (parse_event_page iso_parse earlier_page) = Some may01_12"
  by code_simp

text \<open>
  C4. Every record the parser produces satisfies the invariant of the data model: when
  \<open>end\<close> is set, \<open>start\<close> is set as well and \<open>end \<ge> start\<close> evaluates to true, for
  every page and every date parser.
\<close>

theorem parse_event_page_end_after_start:
  "end_dt (parse_event_page dp_parse sp) = Some e \<Longrightarrow>
   \<exists>s. start_dt (parse_event_page dp_parse sp) = Some s \<and> dt_ge e s = Inr True"
  using scan_scripts_inv [of dp_parse "scripts sp"]
  by (auto simp: parse_event_page_start parse_event_page_end scan_inv_def split: option.splits)

theorem parse_event_page_end_after_start_witness:
  "end_dt (parse_event_page iso_parse event_page) = Some may01_12
   \<and> start_dt (parse_event_page iso_parse event_page) = Some may01_10
   \<and> dt_ge may01_12 may01_10 = Inr True"
proof -
  have e: "end_dt (parse_event_page iso_parse event_page) = Some may01_12"
    by code_simp
  have s: "start_dt (parse_event_page iso_parse event_page) = Some may01_10"
    by code_simp
  from parse_event_page_end_after_start [OF e] s e show ?thesis by simp
qed

text \<open>
  C8, as amended. The fallback over the \<^verbatim>\<open>time\<close> and \<^verbatim>\<open>abbr\<close> elements is reached only
  when the script scan left \<open>start\<close> unresolved. It makes one lenient parse attempt per
  element, in document order: on the element's \<^verbatim>\<open>datetime\<close> attribute when that is
  present and not empty, on its visible text otherwise. The first element whose attempt
  succeeds gives \<open>start\<close>, and the loop stops; an element whose attempt fails is passed
  over, and the search goes on behind it.
\<close>

theorem time_fallback_first_parsed:
  "(\<forall>s. fst (scan_scripts dp_parse (scripts sp)) = Some s \<longrightarrow>
        start_dt (parse_event_page dp_parse sp) = Some s)
   \<and> (\<forall>a. datetime_attr p = Some a \<and> a \<noteq> [] \<longrightarrow> time_source p = a)
   \<and> (datetime_attr p = None \<or> datetime_attr p = Some [] \<longrightarrow> time_source p = tag_text p)
   \<and> (fst (scan_scripts dp_parse (scripts sp)) = None
      \<and> time_abbrs sp = before @ p # after
      \<and> (\<forall>q\<in>set before. dp_parse True (time_source q) = None) \<longrightarrow>
        (\<forall>d. dp_parse True (time_source p) = Some d \<longrightarrow>
           start_dt (parse_event_page dp_parse sp) = Some d)
        \<and> (dp_parse True (time_source p) = None \<longrightarrow>
           start_dt (parse_event_page dp_parse sp) = time_fallback dp_parse after))"
proof -
  have resolved: "\<forall>s. fst (scan_scripts dp_parse (scripts sp)) = Some s \<longrightarrow>
      start_dt (parse_event_page dp_parse sp) = Some s"
    by (simp add: parse_event_page_start)
  have attr: "\<forall>a. datetime_attr p = Some a \<and> a \<noteq> [] \<longrightarrow> time_source p = a"
    by (simp add: time_source_def truthy_def)
  have vis: "datetime_attr p = None \<or> datetime_attr p = Some [] \<longrightarrow> time_source p = tag_text p"
    by (auto simp: time_source_def truthy_def)
  have fallback: "fst (scan_scripts dp_parse (scripts sp)) = None \<Longrightarrow>
      time_abbrs sp = before @ p # after \<Longrightarrow>
      \<forall>q\<in>set before. dp_parse True (time_source q) = None \<Longrightarrow>
      start_dt (parse_event_page dp_parse sp) = time_fallback dp_parse (p # after)"
    by (simp add: parse_event_page_start time_fallback_skip)
  show ?thesis
    using resolved attr vis fallback by simp
qed

theorem time_fallback_first_parsed_witness:
  "fst (scan_scripts iso_parse (scripts time_page)) = None
   \<and> time_source attr_time_tag = ''xyz''
   \<and> iso_parse True ''xyz'' = None
   \<and> datetime_attr text_time_tag = None
   \<and> tag_text text_time_tag = ''2024-05-01T12:00:00''
   \<and> iso_parse True ''2024-05-01T12:00:00'' = Some may01_12
   \<and> start_dt (parse_event_page iso_parse time_page) = Some may01_12"
proof -
  have u: "fst (scan_scripts iso_parse (scripts time_page)) = None"
    by code_simp
  have t: "time_abbrs time_page = [attr_time_tag] @ text_time_tag # []"
    by (simp add: time_page_def)
  have a: "time_source attr_time_tag = ''xyz''"
    by code_simp
  have pa: "iso_parse True ''xyz'' = None"
    by code_simp
  have b: "\<forall>q\<in>set [attr_time_tag]. iso_parse True (time_source q) = None"
    by (simp add: a pa)
  have n: "datetime_attr text_time_tag = None"
    by (simp add: text_time_tag_def)
  have x: "tag_text text_time_tag = ''2024-05-01T12:00:00''"
    by (simp add: text_time_tag_def)
  have ps: "iso_parse True ''2024-05-01T12:00:00'' = Some may01_12"
    by code_simp
  note inst = time_fallback_first_parsed
    [where dp_parse = iso_parse and sp = time_page and p = text_time_tag
       and before = "[attr_time_tag]" and after = "[]"]
  from inst n x have s: "time_source text_time_tag = ''2024-05-01T12:00:00''"
    by simp
  from inst u t b s ps have "start_dt (parse_event_page iso_parse time_page) = Some may01_12"
    by simp
  with u a pa n x ps show ?thesis by simp
qed

text \<open>
  The claim as it was stated fails: an element whose \<^verbatim>\<open>datetime\<close> attribute does not
  parse is passed over although its visible text parses.
\<close>

theorem time_fallback_first_parsed_counterexample:
  "time_abbrs attr_page = [attr_time_tag]
   \<and> datetime_attr attr_time_tag = Some ''xyz''
   \<and> iso_parse True ''xyz'' = None
   \<and> tag_text attr_time_tag = ''2024-05-01T10:00:00''
   \<and> iso_parse True ''2024-05-01T10:00:00'' = Some may01_10
   \<and> start_dt (parse_event_page iso_parse attr_page) = None"
  by code_simp

section \<open>The calendar and the pipeline: the claims\<close>

text \<open>
  C5. A record whose \<open>start\<close> is unresolved is dropped by the filter of \<^verbatim>\<open>main\<close>,
  whatever its other fields hold, and the records around it are kept as they would be
  without it; a record whose \<open>start\<close> is resolved is kept at its place. The kept records
  are a subsequence of the results, exactly those with a resolved \<open>start\<close>. The calendar
  gets one event per kept record, in their order, and every event has a begin.
\<close>

theorem drop_unresolved_calendar:
  "(start_dt r = None \<longrightarrow> drop_unresolved (xs @ r # ys) = drop_unresolved xs @ drop_unresolved ys)
   \<and> (start_dt r \<noteq> None \<longrightarrow>
        drop_unresolved (xs @ r # ys) = drop_unresolved xs @ r # drop_unresolved ys)
   \<and> subseq (drop_unresolved rs) rs
   \<and> set (drop_unresolved rs) = {r \<in> set rs. start_dt r \<noteq> None}
   \<and> map ev_name (build_ics zone_offset clock (drop_unresolved rs)) = map title (drop_unresolved rs)
   \<and> (\<forall>ev\<in>set (build_ics zone_offset clock (drop_unresolved rs)). ev_begin ev \<noteq> None)"
proof -
  have names: "map ev_name (build_ics zone_offset clock (drop_unresolved rs))
      = map title (drop_unresolved rs)"
    by (simp add: map_build_ics make_event_def map_snd_enumerate)
  have "\<forall>r\<in>set (drop_unresolved rs). start_dt r \<noteq> None"
    by (simp add: drop_unresolved_def)
  then have begins: "\<forall>ev\<in>set (build_ics zone_offset clock (drop_unresolved rs)). ev_begin ev \<noteq> None"
    by (rule build_ics_begin)
  show ?thesis
    using names begins by (auto simp: drop_unresolved_def)
qed

theorem drop_unresolved_calendar_witness:
  "start_dt untimed_record = None \<and> start_dt naive_record \<noteq> None
   \<and> drop_unresolved [naive_record, untimed_record, aware_record] = [naive_record, aware_record]
   \<and> map ev_name (build_ics chicago_offset (\<lambda>i. 0)
         (drop_unresolved [naive_record, untimed_record, aware_record])) = [''Tour'', ''Race'']"
proof -
  have u: "start_dt untimed_record = None"
    by (simp add: untimed_record_def)
  have n: "start_dt naive_record \<noteq> None"
    by (simp add: naive_record_def)
  have a: "start_dt aware_record \<noteq> None"
    by (simp add: aware_record_def)
  have t: "map title [naive_record, aware_record] = [''Tour'', ''Race'']"
    by (simp add: naive_record_def aware_record_def)
  have k: "drop_unresolved [naive_record, aware_record] = [naive_record, aware_record]"
    using n a by (simp add: drop_unresolved_def)
  from drop_unresolved_calendar [of untimed_record "[naive_record]" "[aware_record]"] u
  have d: "drop_unresolved [naive_record, untimed_record, aware_record]
      = drop_unresolved [naive_record] @ drop_unresolved [aware_record]"
    by simp
  then have d': "drop_unresolved [naive_record, untimed_record, aware_record]
      = [naive_record, aware_record]"
    using n a by (simp add: drop_unresolved_def)
  from drop_unresolved_calendar
    [of untimed_record "[]" "[]" "[naive_record, untimed_record, aware_record]" chicago_offset "\<lambda>i. 0"]
  have "map ev_name (build_ics chicago_offset (\<lambda>i. 0)
         (drop_unresolved [naive_record, untimed_record, aware_record]))
      = map title (drop_unresolved [naive_record, untimed_record, aware_record])"
    by blast
  with u n d' t show ?thesis by simp
qed

text \<open>
  C6. For the record at any position of the list given to \<open>build_ics\<close>: when its
  \<open>start\<close> has no zone, the event's begin has the same year, month, day, hour, minute,
  second and microsecond and carries the default zone \<^verbatim>\<open>America/Chicago\<close>; when its
  \<open>start\<close> has a zone, the event's begin is that value unchanged. The same holds for
  \<open>end\<close> and the event's end.
\<close>

theorem build_ics_default_zone:
  assumes "i < length rs"
  shows "(\<forall>dt. start_dt (rs ! i) = Some dt \<and> tzinfo dt = None \<longrightarrow>
            (\<exists>dt'. ev_begin (build_ics zone_offset clock rs ! i) = Some dt'
               \<and> dt_fields dt' = dt_fields dt
               \<and> map_option tzname (tzinfo dt') = Some (Some ''America/Chicago'')))
       \<and> (\<forall>dt. start_dt (rs ! i) = Some dt \<and> tzinfo dt \<noteq> None \<longrightarrow>
            ev_begin (build_ics zone_offset clock rs ! i) = Some dt)
       \<and> (\<forall>dt. end_dt (rs ! i) = Some dt \<and> tzinfo dt = None \<longrightarrow>
            (\<exists>dt'. ev_end (build_ics zone_offset clock rs ! i) = Some dt'
               \<and> dt_fields dt' = dt_fields dt
               \<and> map_option tzname (tzinfo dt') = Some (Some ''America/Chicago'')))
       \<and> (\<forall>dt. end_dt (rs ! i) = Some dt \<and> tzinfo dt \<noteq> None \<longrightarrow>
            ev_end (build_ics zone_offset clock rs ! i) = Some dt)"
  using assms
  by (simp add: build_ics_nth make_event_def ensure_aware_def localize_def dt_fields_def
      DEFAULT_TZ_def)

theorem build_ics_default_zone_witness:
  "start_dt naive_record = Some may01_10 \<and> tzinfo may01_10 = None
   \<and> ev_begin (build_ics chicago_offset (\<lambda>i. 0) [naive_record, aware_record] ! 0)
     = Some \<lparr>year = 2024, month = 5, day = 1, hour = 10, minute = 0, second = 0, microsecond = 0,
             tzinfo = Some \<lparr>tz_id = ZoneTz ''America/Chicago'' (- 18000),
                            tzname = Some ''America/Chicago'', utcoffset = - 18000\<rparr>\<rparr>
   \<and> start_dt aware_record = Some may01_10_utc \<and> tzinfo may01_10_utc \<noteq> None
   \<and> ev_begin (build_ics chicago_offset (\<lambda>i. 0) [naive_record, aware_record] ! 1)
     = Some may01_10_utc"
proof -
  let ?rs = "[naive_record, aware_record]"
  have l0: "0 < length ?rs"
    by simp
  have l1: "1 < length ?rs"
    by simp
  have n: "start_dt naive_record = Some may01_10 \<and> tzinfo may01_10 = None"
    by (simp add: naive_record_def may01_10_def)
  have a: "start_dt aware_record = Some may01_10_utc \<and> tzinfo may01_10_utc \<noteq> None"
    by (simp add: aware_record_def may01_10_utc_def)
  from build_ics_default_zone [OF l0, of chicago_offset "\<lambda>i. 0"] n
  obtain dt' where b: "ev_begin (build_ics chicago_offset (\<lambda>i. 0) ?rs ! 0) = Some dt'"
    and f: "dt_fields dt' = dt_fields may01_10"
    and z: "map_option tzname (tzinfo dt') = Some (Some ''America/Chicago'')"
    by auto
  have "ev_begin (build_ics chicago_offset (\<lambda>i. 0) ?rs ! 0)
     = Some \<lparr>year = 2024, month = 5, day = 1, hour = 10, minute = 0, second = 0, microsecond = 0,
             tzinfo = Some \<lparr>tz_id = ZoneTz ''America/Chicago'' (- 18000),
                            tzname = Some ''America/Chicago'', utcoffset = - 18000\<rparr>\<rparr>"
    by code_simp
  moreover from build_ics_default_zone [OF l1, of chicago_offset "\<lambda>i. 0"] a
  have "ev_begin (build_ics chicago_offset (\<lambda>i. 0) ?rs ! 1) = Some may01_10_utc"
    by simp
  ultimately show ?thesis using n a by simp
qed

text \<open>
  C9. Every record \<^verbatim>\<open>main\<close> appends to its results has a \<^verbatim>\<open>url\<close>: where the parser
  left it unresolved, it is the address of the event page built from the identifier.
  So every event of the calendar has the unique identifier made of the record's
  \<^verbatim>\<open>url\<close> and the suffix \<^verbatim>\<open>@streamwood-biking\<close>, and the calendar does not depend on
  the clock: the fallback that reads the time is never taken.
\<close>

theorem main_results_url:
  "(\<forall>r\<in>set (main_results dp_parse page_content html). truthy (url r))
   \<and> (\<not> truthy (url (parse_event_page dp_parse (page_content (event_url eid)))) \<longrightarrow>
        url (visit dp_parse page_content eid) = Some (event_url eid))
   \<and> map ev_uid (main_calendar dp_parse zone_offset clock page_content html)
       = map (\<lambda>r. the (url r) @ ''@streamwood-biking'')
           (drop_unresolved (main_results dp_parse page_content html))
   \<and> main_calendar dp_parse zone_offset clock page_content html
       = main_calendar dp_parse zone_offset clock' page_content html"
proof -
  have all: "\<forall>r\<in>set (main_results dp_parse page_content html). truthy (url r)"
    by (simp add: main_results_def truthy_url_visit)
  then have kept: "\<forall>r\<in>set (drop_unresolved (main_results dp_parse page_content html)). truthy (url r)"
    by (simp add: drop_unresolved_def)
  have assigned: "\<not> truthy (url (parse_event_page dp_parse (page_content (event_url eid)))) \<Longrightarrow>
      url (visit dp_parse page_content eid) = Some (event_url eid)"
    by (simp add: visit_def Let_def)
  show ?thesis
    using all assigned build_ics_uid [OF kept] build_ics_clock [OF kept]
    unfolding main_calendar_def by blast
qed

theorem main_results_url_witness:
  "main_event_ids ''<a href=/events/7>'' = [''7'']
   \<and> url (parse_event_page iso_parse event_page) = None
   \<and> map url (main_results iso_parse (\<lambda>u. event_page) ''<a href=/events/7>'')
       = [Some ''https://m.facebook.com/events/7'']
   \<and> map ev_uid (main_calendar iso_parse chicago_offset (\<lambda>i. 0) (\<lambda>u. event_page) ''<a href=/events/7>'')
       = [''https://m.facebook.com/events/7@streamwood-biking'']"
proof -
  have i: "main_event_ids ''<a href=/events/7>'' = [''7'']"
    by code_simp
  have p: "url (parse_event_page iso_parse event_page) = None"
    by code_simp
  have r: "map url (main_results iso_parse (\<lambda>u. event_page) ''<a href=/events/7>'')
       = [Some ''https://m.facebook.com/events/7'']"
    by code_simp
  have k: "map url (drop_unresolved (main_results iso_parse (\<lambda>u. event_page) ''<a href=/events/7>''))
       = [Some ''https://m.facebook.com/events/7'']"
    by code_simp
  from main_results_url [of iso_parse "\<lambda>u. event_page" "''<a href=/events/7>''" "''7''" chicago_offset "\<lambda>i. 0"]
  have "map ev_uid (main_calendar iso_parse chicago_offset (\<lambda>i. 0) (\<lambda>u. event_page) ''<a href=/events/7>'')
       = map (\<lambda>r. the (url r) @ ''@streamwood-biking'')
           (drop_unresolved (main_results iso_parse (\<lambda>u. event_page) ''<a href=/events/7>''))"
    by blast
  also have "\<dots> = map (\<lambda>u. the u @ ''@streamwood-biking'')
      (map url (drop_unresolved (main_results iso_parse (\<lambda>u. event_page) ''<a href=/events/7>'')))"
    by (simp add: o_def)
  also have "\<dots> = [''https://m.facebook.com/events/7@streamwood-biking'']"
    unfolding k by simp
  finally show ?thesis using i p r by simp
qed

end
